theory Spec2Isabelle
  imports Main
begin

section \<open>Data model of \<open>gym_membership/pricing.py\<close>\<close>

text \<open>
  The two frozen dataclasses of the module. Python's unbounded \<open>int\<close> is \<open>int\<close>;
  a \<open>str\<close> is a \<open>string\<close>, whose characters stand for code points below 256.
\<close>

record CatalogItem =
  code :: string
  name :: string
  price_usd :: int
  available :: bool
  is_premium :: bool

record CalculationResult =
  members :: int
  plan :: CatalogItem
  addons :: "CatalogItem list"
  premium_features :: "CatalogItem list"
  base_total_usd :: int
  group_discount_usd :: int
  premium_surcharge_usd :: int
  special_offer_discount_usd :: int
  total_usd :: int
  messages :: "string list"

text \<open>
  Both failures of \<open>calculate_total\<close> are raised as \<open>ValueError\<close> with a message;
  a subscript of a registry with a missing key raises \<open>KeyError\<close>.
\<close>

datatype error = ValueError string | KeyError string

subsection \<open>Catalog\<close>

definition PLANS :: "string \<rightharpoonup> CatalogItem" where
  "PLANS = map_of
     [(''basic'', \<lparr>code = ''basic'', name = ''Basic'', price_usd = 60,
         available = True, is_premium = False\<rparr>),
      (''premium'', \<lparr>code = ''premium'', name = ''Premium'', price_usd = 100,
         available = True, is_premium = False\<rparr>),
      (''family'', \<lparr>code = ''family'', name = ''Family'', price_usd = 160,
         available = True, is_premium = False\<rparr>)]"

definition ADDONS :: "string \<rightharpoonup> CatalogItem" where
  "ADDONS = map_of
     [(''nutrition'', \<lparr>code = ''nutrition'', name = ''Nutrition plan'', price_usd = 20,
         available = True, is_premium = False\<rparr>),
      (''classes'', \<lparr>code = ''classes'', name = ''Group classes'', price_usd = 40,
         available = True, is_premium = False\<rparr>),
      (''pt'', \<lparr>code = ''pt'', name = ''Personal training sessions'', price_usd = 60,
         available = True, is_premium = False\<rparr>)]"

definition PREMIUM_FEATURES :: "string \<rightharpoonup> CatalogItem" where
  "PREMIUM_FEATURES = map_of
     [(''exclusive'', \<lparr>code = ''exclusive'', name = ''Exclusive facilities access'',
         price_usd = 80, available = True, is_premium = True\<rparr>),
      (''specialized'', \<lparr>code = ''specialized'', name = ''Specialized training program'',
         price_usd = 120, available = True, is_premium = True\<rparr>)]"

subsection \<open>Python built-ins used by the module\<close>

text \<open>
  \<open>repr\<close> of a \<open>str\<close> (the \<open>!r\<close> conversion of the f-strings): the text is quoted with
  an apostrophe, or with a double quote when it contains an apostrophe and no double
  quote; the quote character and the backslash are escaped with a backslash, tab, line
  feed and carriage return become \<open>\t\<close>, \<open>\n\<close>, \<open>\r\<close>, and every other non-printable
  code point below 256 becomes \<open>\xHH\<close> in lower-case hexadecimal.
\<close>

definition hexdigit :: "nat \<Rightarrow> char" where
  "hexdigit n = ''0123456789abcdef'' ! (n mod 16)"

definition hex_escape :: "nat \<Rightarrow> string" where
  "hex_escape n = [CHR 0x5C, CHR ''x'', hexdigit (n div 16), hexdigit n]"

definition repr_char :: "char \<Rightarrow> char \<Rightarrow> string" where
  "repr_char quote ch =
     (let n = (of_char ch :: nat) in
      if ch = quote \<or> ch = CHR 0x5C then [CHR 0x5C, ch]
      else if ch = CHR 0x09 then [CHR 0x5C, CHR ''t'']
      else if ch = CHR 0x0A then [CHR 0x5C, CHR ''n'']
      else if ch = CHR 0x0D then [CHR 0x5C, CHR ''r'']
      else if n < 0x20 \<or> n = 0x7F then hex_escape n
      else if n < 0x7F then [ch]
      else if n \<le> 0xA0 \<or> n = 0xAD then hex_escape n
      else [ch])"

definition py_repr :: "string \<Rightarrow> string" where
  "py_repr s =
     (let quote = (if CHR 0x27 \<in> set s \<and> CHR 0x22 \<notin> set s then CHR 0x22 else CHR 0x27)
      in [quote] @ concat (map (repr_char quote) s) @ [quote])"

text \<open>\<open>sep.join(xs)\<close> on a list of strings.\<close>

fun join :: "string \<Rightarrow> string list \<Rightarrow> string" where
  "join sep [] = []"
| "join sep [x] = x"
| "join sep (x # y # ys) = x @ sep @ join sep (y # ys)"

section \<open>Validation\<close>

text \<open>
  \<open>_dedupe_preserve_order\<close>: the \<open>for\<close> loop over the values, carrying the set \<open>seen\<close>
  and the output list \<open>out\<close>.
\<close>

fun dedupe_loop :: "string list \<Rightarrow> string set \<Rightarrow> string list \<Rightarrow> string list" where
  "dedupe_loop [] seen out = out"
| "dedupe_loop (v # vs) seen out =
     (if v \<notin> seen then dedupe_loop vs (insert v seen) (out @ [v])
      else dedupe_loop vs seen out)"

definition dedupe_preserve_order :: "string list \<Rightarrow> string list" where
  "dedupe_preserve_order values = dedupe_loop values {} []"

text \<open>The two \<open>for\<close> loops of \<open>validate_selection\<close>, each appending to \<open>errors\<close>.\<close>

fun addon_loop :: "string list \<Rightarrow> string list \<Rightarrow> string list" where
  "addon_loop [] errors = errors"
| "addon_loop (c # cs) errors =
     (case ADDONS c of
        None \<Rightarrow> addon_loop cs (errors @ [''unknown add-on: '' @ py_repr c @ ''.''])
      | Some item \<Rightarrow>
          if \<not> available item
          then addon_loop cs
                 (errors @ [''add-on '' @ [CHR 0x27] @ c @ [CHR 0x27] @ '' is not available.''])
          else addon_loop cs errors)"

fun premium_loop :: "string list \<Rightarrow> string list \<Rightarrow> string list" where
  "premium_loop [] errors = errors"
| "premium_loop (c # cs) errors =
     (case PREMIUM_FEATURES c of
        None \<Rightarrow> premium_loop cs (errors @ [''unknown premium feature: '' @ py_repr c @ ''.''])
      | Some item \<Rightarrow>
          if \<not> available item
          then premium_loop cs
                 (errors @ [''premium feature '' @ [CHR 0x27] @ c @ [CHR 0x27]
                            @ '' is not available.''])
          else premium_loop cs errors)"

text \<open>
  \<open>members\<close> has type \<open>int\<close>, so the \<open>isinstance\<close> test of the source always holds and
  only \<open>members <= 0\<close> remains of the first condition.
\<close>

definition validate_selection ::
  "int \<Rightarrow> string \<Rightarrow> string list \<Rightarrow> string list \<Rightarrow> string list" where
  "validate_selection mem plan_code addon_codes premium_codes =
     (let errors0 = [];
          errors1 = (if mem \<le> 0 then errors0 @ [''members must be a positive integer.'']
                     else errors0);
          errors2 = (case PLANS plan_code of
                       None \<Rightarrow> errors1 @ [''unknown plan: '' @ py_repr plan_code @ ''.'']
                     | Some item \<Rightarrow>
                         if \<not> available item
                         then errors1 @ [''plan '' @ [CHR 0x27] @ plan_code @ [CHR 0x27]
                                         @ '' is not available.'']
                         else errors1);
          errors3 = addon_loop (dedupe_preserve_order addon_codes) errors2;
          errors4 = premium_loop (dedupe_preserve_order premium_codes) errors3
      in errors4)"

section \<open>Pricing rules\<close>

definition special_offer_discount :: "int \<Rightarrow> int" where
  "special_offer_discount t = (if t > 400 then 50 else if t > 200 then 20 else 0)"

text \<open>\<open>tuple(REG[c] for c in codes)\<close>: the first missing key raises \<open>KeyError\<close>.\<close>

fun lookup_all :: "(string \<rightharpoonup> CatalogItem) \<Rightarrow> string list \<Rightarrow> error + CatalogItem list" where
  "lookup_all reg [] = Inr []"
| "lookup_all reg (c # cs) =
     (case reg c of
        None \<Rightarrow> Inl (KeyError c)
      | Some item \<Rightarrow>
          (case lookup_all reg cs of Inl e \<Rightarrow> Inl e | Inr items \<Rightarrow> Inr (item # items)))"

definition calculate_total ::
  "int \<Rightarrow> string \<Rightarrow> string list \<Rightarrow> string list \<Rightarrow> error + CalculationResult" where
  "calculate_total mem plan_code addon_codes premium_codes =
     (let addon_codes_list = dedupe_preserve_order addon_codes;
          premium_codes_list = dedupe_preserve_order premium_codes;
          errors = validate_selection mem plan_code addon_codes_list premium_codes_list
      in if errors \<noteq> [] then Inl (ValueError (join ''; '' errors))
         else
           (case PLANS plan_code of
              None \<Rightarrow> Inl (KeyError plan_code)
            | Some pl \<Rightarrow>
           (case lookup_all ADDONS addon_codes_list of
              Inl e \<Rightarrow> Inl e
            | Inr ads \<Rightarrow>
           (case lookup_all PREMIUM_FEATURES premium_codes_list of
              Inl e \<Rightarrow> Inl e
            | Inr prs \<Rightarrow>
              (let per_member = price_usd pl + sum_list (map price_usd ads)
                                  + sum_list (map price_usd prs);
                   base_total = mem * per_member;
                   messages0 = [];
                   messages1 =
                     (if mem \<ge> 2
                      then messages0 @
                        [''Group discount applied: 10% off for 2+ members on the same plan.'']
                      else messages0);
                   group_discount = (if mem \<ge> 2 then (base_total * 10) div 100 else 0);
                   after_group = base_total - group_discount;
                   messages2 =
                     (if prs \<noteq> []
                      then messages1 @
                        [''Premium surcharge applied: +15% (premium features selected).'']
                      else messages1);
                   premium_surcharge =
                     (if prs \<noteq> [] then (after_group * 15) div 100 else 0);
                   after_surcharge = after_group + premium_surcharge;
                   special_offer = special_offer_discount after_surcharge;
                   messages3 =
                     (if special_offer = 20
                      then messages2 @ [''Special offer applied: -$20 (total exceeds $200).'']
                      else if special_offer = 50
                      then messages2 @ [''Special offer applied: -$50 (total exceeds $400).'']
                      else messages2);
                   total = after_surcharge - special_offer
               in if total \<le> 0
                  then Inl (ValueError
                    ''calculated total is not positive; check pricing configuration.'')
                  else Inr \<lparr>members = mem, plan = pl, addons = ads, premium_features = prs,
                            base_total_usd = base_total,
                            group_discount_usd = group_discount,
                            premium_surcharge_usd = premium_surcharge,
                            special_offer_discount_usd = special_offer,
                            total_usd = total,
                            messages = messages3\<rparr>)))))"

section \<open>The specification's vocabulary\<close>

text \<open>
  Deduplication as the specification words it: every value is kept at its first
  occurrence and dropped at the later ones.
\<close>

fun first_occurrences :: "string list \<Rightarrow> string list" where
  "first_occurrences [] = []"
| "first_occurrences (x # xs) = x # first_occurrences (removeAll x xs)"


text \<open>
  The violation messages rule by rule: what each of the four validation rules contributes
  for one member count or one code (no message when the rule holds).
\<close>

definition members_messages :: "int \<Rightarrow> string list" where
  "members_messages mem =
     (if mem > 0 then [] else [''members must be a positive integer.''])"

definition plan_messages :: "string \<Rightarrow> string list" where
  "plan_messages c =
     (case PLANS c of
        None \<Rightarrow> [''unknown plan: '' @ py_repr c @ ''.'']
      | Some item \<Rightarrow>
          if available item then []
          else [''plan '' @ [CHR 0x27] @ c @ [CHR 0x27] @ '' is not available.''])"

definition addon_messages :: "string \<Rightarrow> string list" where
  "addon_messages c =
     (case ADDONS c of
        None \<Rightarrow> [''unknown add-on: '' @ py_repr c @ ''.'']
      | Some item \<Rightarrow>
          if available item then []
          else [''add-on '' @ [CHR 0x27] @ c @ [CHR 0x27] @ '' is not available.''])"

definition premium_messages :: "string \<Rightarrow> string list" where
  "premium_messages c =
     (case PREMIUM_FEATURES c of
        None \<Rightarrow> [''unknown premium feature: '' @ py_repr c @ ''.'']
      | Some item \<Rightarrow>
          if available item then []
          else [''premium feature '' @ [CHR 0x27] @ c @ [CHR 0x27] @ '' is not available.''])"


text \<open>
  A code satisfies its rule when it exists in its registry and the entry is available; a
  selection violates the validation rules when the member count is not positive or some
  code does not satisfy its rule.
\<close>

definition registered :: "(string \<rightharpoonup> CatalogItem) \<Rightarrow> string \<Rightarrow> bool" where
  "registered reg c = (case reg c of None \<Rightarrow> False | Some item \<Rightarrow> available item)"

definition rule_violated :: "int \<Rightarrow> string \<Rightarrow> string list \<Rightarrow> string list \<Rightarrow> bool" where
  "rule_violated mem p a pr \<longleftrightarrow>
     \<not> 0 < mem \<or> \<not> registered PLANS p
       \<or> (\<exists>c \<in> set a. \<not> registered ADDONS c)
       \<or> (\<exists>c \<in> set pr. \<not> registered PREMIUM_FEATURES c)"


section \<open>Deduplication\<close>

lemma dedupe_loop_out: "dedupe_loop vs seen out = out @ dedupe_loop vs seen []"
proof (induction vs arbitrary: seen out)
  case Nil
  show ?case by simp
next
  case (Cons v vs)
  have a: "dedupe_loop vs (insert v seen) (out @ [v]) = (out @ [v]) @ dedupe_loop vs (insert v seen) []"
    by (rule Cons.IH)
  have b: "dedupe_loop vs (insert v seen) [v] = [v] @ dedupe_loop vs (insert v seen) []"
    using Cons.IH [of "insert v seen" "[v]"] by simp
  have c: "dedupe_loop vs seen out = out @ dedupe_loop vs seen []"
    by (rule Cons.IH)
  show ?case using a b c by simp
qed

lemma dedupe_loop_seen:
  "x \<in> seen \<Longrightarrow> dedupe_loop vs seen out = dedupe_loop (removeAll x vs) seen out"
  by (induction vs arbitrary: seen out) auto

lemma dedupe_loop_removeAll:
  "x \<notin> seen \<Longrightarrow> dedupe_loop (removeAll x vs) (insert x seen) out = dedupe_loop (removeAll x vs) seen out"
proof (induction vs arbitrary: seen out)
  case Nil
  show ?case by simp
next
  case (Cons v vs)
  show ?case
  proof (cases "v = x")
    case True
    then show ?thesis using Cons by simp
  next
    case False
    then show ?thesis using Cons.IH [of "insert v seen"] Cons.IH [of seen] Cons.prems
      by (auto simp: insert_commute)
  qed
qed

lemma dedupe_loop_set: "set (dedupe_loop vs seen []) = set vs - seen"
proof (induction vs arbitrary: seen)
  case Nil
  show ?case by simp
next
  case (Cons v vs)
  show ?case
    using Cons.IH [of seen] Cons.IH [of "insert v seen"] dedupe_loop_out [of vs "insert v seen" "[v]"]
    by auto
qed

lemma dedupe_preserve_order_Nil [simp]: "dedupe_preserve_order [] = []"
  by (simp add: dedupe_preserve_order_def)

lemma dedupe_preserve_order_Cons:
  "dedupe_preserve_order (x # xs) = x # dedupe_preserve_order (removeAll x xs)"
proof -
  have "dedupe_preserve_order (x # xs) = [x] @ dedupe_loop xs {x} []"
    using dedupe_loop_out [of xs "{x}" "[x]"] by (simp add: dedupe_preserve_order_def)
  also have "dedupe_loop xs {x} [] = dedupe_loop (removeAll x xs) {x} []"
    by (rule dedupe_loop_seen) simp
  also have "\<dots> = dedupe_loop (removeAll x xs) {} []"
    by (rule dedupe_loop_removeAll) simp
  finally show ?thesis by (simp add: dedupe_preserve_order_def)
qed

lemma dedupe_first_occurrences: "dedupe_preserve_order xs = first_occurrences xs"
proof (induction xs rule: first_occurrences.induct)
  case 1
  show ?case by simp
next
  case (2 x xs)
  then show ?case by (simp add: dedupe_preserve_order_Cons)
qed

lemma set_dedupe [simp]: "set (dedupe_preserve_order xs) = set xs"
  by (simp add: dedupe_preserve_order_def dedupe_loop_set)

lemma distinct_first_occurrences: "distinct (first_occurrences xs)"
proof (induction xs rule: first_occurrences.induct)
  case 1
  show ?case by simp
next
  case (2 x xs)
  have "set (first_occurrences (removeAll x xs)) = set (removeAll x xs)"
    using set_dedupe [of "removeAll x xs"] by (simp add: dedupe_first_occurrences)
  then show ?case using 2 by simp
qed

lemma first_occurrences_distinct: "distinct xs \<Longrightarrow> first_occurrences xs = xs"
  by (induction xs) (simp_all add: removeAll_id)

lemma dedupe_idem [simp]:
  "dedupe_preserve_order (dedupe_preserve_order xs) = dedupe_preserve_order xs"
  using first_occurrences_distinct [OF distinct_first_occurrences [of xs]]
  by (simp add: dedupe_first_occurrences)

lemma dedupe_Nil_iff [simp]: "dedupe_preserve_order xs = [] \<longleftrightarrow> xs = []"
  by (cases xs) (simp_all add: dedupe_preserve_order_Cons)

section \<open>Validation collects one message per violation\<close>

lemma addon_loop_eq: "addon_loop cs errors = errors @ concat (map addon_messages cs)"
  by (induction cs arbitrary: errors) (simp_all add: addon_messages_def split: option.splits)

lemma premium_loop_eq: "premium_loop cs errors = errors @ concat (map premium_messages cs)"
  by (induction cs arbitrary: errors) (simp_all add: premium_messages_def split: option.splits)

lemma validate_selection_eq:
  "validate_selection mem p a pr =
     members_messages mem @ plan_messages p
       @ concat (map addon_messages (dedupe_preserve_order a))
       @ concat (map premium_messages (dedupe_preserve_order pr))"
  by (simp add: validate_selection_def addon_loop_eq premium_loop_eq
        members_messages_def plan_messages_def split: option.splits)

lemma validate_selection_dedupe:
  "validate_selection mem p (dedupe_preserve_order a) (dedupe_preserve_order pr) =
     validate_selection mem p a pr"
  by (simp add: validate_selection_eq)

lemma PLANS_Some: "PLANS c = Some item \<Longrightarrow> available item \<and> 60 \<le> price_usd item"
  by (auto simp: PLANS_def split: if_splits)

lemma ADDONS_Some: "ADDONS c = Some item \<Longrightarrow> available item \<and> 20 \<le> price_usd item"
  by (auto simp: ADDONS_def split: if_splits)

lemma PREMIUM_FEATURES_Some:
  "PREMIUM_FEATURES c = Some item \<Longrightarrow> available item \<and> 80 \<le> price_usd item"
  by (auto simp: PREMIUM_FEATURES_def split: if_splits)

lemma plan_messages_Nil_iff: "plan_messages c = [] \<longleftrightarrow> PLANS c \<noteq> None"
  by (auto simp: plan_messages_def dest: PLANS_Some split: option.splits)

lemma addon_messages_Nil_iff: "addon_messages c = [] \<longleftrightarrow> ADDONS c \<noteq> None"
  by (auto simp: addon_messages_def dest: ADDONS_Some split: option.splits)

lemma premium_messages_Nil_iff: "premium_messages c = [] \<longleftrightarrow> PREMIUM_FEATURES c \<noteq> None"
  by (auto simp: premium_messages_def dest: PREMIUM_FEATURES_Some split: option.splits)

lemma validate_selection_Nil_iff:
  "validate_selection mem p a pr = [] \<longleftrightarrow>
     0 < mem \<and> PLANS p \<noteq> None \<and> (\<forall>c \<in> set a. ADDONS c \<noteq> None)
       \<and> (\<forall>c \<in> set pr. PREMIUM_FEATURES c \<noteq> None)"
  by (simp add: validate_selection_eq members_messages_def plan_messages_Nil_iff
        addon_messages_Nil_iff premium_messages_Nil_iff)

lemma lookup_all_Inr:
  "\<forall>c \<in> set cs. reg c \<noteq> None \<Longrightarrow>
     \<exists>items. lookup_all reg cs = Inr items \<and> map reg cs = map Some items"
  by (induction cs) auto

lemma resolved_items:
  "map reg cs = map Some items \<Longrightarrow> item \<in> set items \<Longrightarrow> \<exists>c \<in> set cs. reg c = Some item"
proof (induction cs arbitrary: items)
  case Nil
  then show ?case by simp
next
  case (Cons c cs)
  then show ?case by (cases items) auto
qed

lemma sum_list_prices_nonneg:
  assumes "\<forall>item \<in> set items. 0 \<le> price_usd item"
  shows "0 \<le> sum_list (map price_usd items)"
  using assms by (induction items) auto

lemma sum_list_prices_lower:
  assumes "\<forall>item \<in> set items. k \<le> price_usd item" and "items \<noteq> []" and "0 \<le> k"
  shows "k \<le> sum_list (map price_usd items)"
proof (cases items)
  case Nil
  with assms show ?thesis by simp
next
  case (Cons x xs)
  have "0 \<le> sum_list (map price_usd xs)"
    using assms Cons by (intro sum_list_prices_nonneg) auto
  moreover have "k \<le> price_usd x" using assms Cons by simp
  ultimately show ?thesis using Cons by simp
qed

lemma base_lower: "(1::int) \<le> m \<Longrightarrow> 0 \<le> k \<Longrightarrow> k \<le> u \<Longrightarrow> m * k \<le> m * u"
  by (simp add: mult_left_mono)

section \<open>The pipeline on a valid selection\<close>

lemma pipeline_positive:
  fixes B :: int
  assumes "60 \<le> B"
    and "G = 0 \<or> G = (B * 10) div 100"
    and "S = 0 \<or> S = ((B - G) * 15) div 100"
  shows "0 \<le> G" and "0 \<le> S" and "0 \<le> special_offer_discount (B - G + S)"
    and "0 < B - G + S - special_offer_discount (B - G + S)"
proof -
  show g: "0 \<le> G" using assms by auto
  have gb: "G \<le> B - 54" using assms by auto
  show s: "0 \<le> S" using assms gb by auto
  show "0 \<le> special_offer_discount (B - G + S)"
    by (simp add: special_offer_discount_def)
  show "0 < B - G + S - special_offer_discount (B - G + S)"
    using gb s by (simp add: special_offer_discount_def)
qed

lemma effects_nonzero:
  fixes B :: int
  shows "120 \<le> B \<Longrightarrow> (B * 10) div 100 \<noteq> 0"
    and "140 \<le> B \<Longrightarrow> G = 0 \<or> G = (B * 10) div 100 \<Longrightarrow> ((B - G) * 15) div 100 \<noteq> 0"
  by auto

lemma calculate_total_valid:
  assumes valid: "validate_selection mem p a pr = []"
  shows "\<exists>r. calculate_total mem p a pr = Inr r
     \<and> members r = mem
     \<and> PLANS p = Some (plan r)
     \<and> map ADDONS (dedupe_preserve_order a) = map Some (addons r)
     \<and> map PREMIUM_FEATURES (dedupe_preserve_order pr) = map Some (premium_features r)
     \<and> base_total_usd r =
         mem * (price_usd (plan r) + sum_list (map price_usd (addons r))
                + sum_list (map price_usd (premium_features r)))
     \<and> group_discount_usd r = (if mem \<ge> 2 then (base_total_usd r * 10) div 100 else 0)
     \<and> premium_surcharge_usd r =
         (if premium_features r \<noteq> []
          then ((base_total_usd r - group_discount_usd r) * 15) div 100 else 0)
     \<and> special_offer_discount_usd r =
         special_offer_discount
           (base_total_usd r - group_discount_usd r + premium_surcharge_usd r)
     \<and> total_usd r =
         base_total_usd r - group_discount_usd r + premium_surcharge_usd r
           - special_offer_discount_usd r
     \<and> messages r =
         (if mem \<ge> 2
          then [''Group discount applied: 10% off for 2+ members on the same plan.'']
          else [])
         @ (if premium_features r \<noteq> []
            then [''Premium surcharge applied: +15% (premium features selected).'']
            else [])
         @ (if special_offer_discount_usd r = 20
            then [''Special offer applied: -$20 (total exceeds $200).'']
            else if special_offer_discount_usd r = 50
            then [''Special offer applied: -$50 (total exceeds $400).'']
            else [])
     \<and> mem * 60 \<le> base_total_usd r
     \<and> (premium_features r \<noteq> [] \<longrightarrow> mem * 140 \<le> base_total_usd r)
     \<and> 0 < total_usd r"
proof -
  from valid have mem: "0 < mem" and pk: "PLANS p \<noteq> None"
    and ak: "\<forall>c \<in> set (dedupe_preserve_order a). ADDONS c \<noteq> None"
    and prk: "\<forall>c \<in> set (dedupe_preserve_order pr). PREMIUM_FEATURES c \<noteq> None"
    by (simp_all add: validate_selection_Nil_iff)
  from pk obtain pl where pl: "PLANS p = Some pl" by auto
  from lookup_all_Inr [OF ak] obtain ads
    where ads: "lookup_all ADDONS (dedupe_preserve_order a) = Inr ads"
      and ads_map: "map ADDONS (dedupe_preserve_order a) = map Some ads" by blast
  from lookup_all_Inr [OF prk] obtain prs
    where prs: "lookup_all PREMIUM_FEATURES (dedupe_preserve_order pr) = Inr prs"
      and prs_map: "map PREMIUM_FEATURES (dedupe_preserve_order pr) = map Some prs" by blast
  have pl_price: "60 \<le> price_usd pl" using PLANS_Some [OF pl] by simp
  have ads_price: "\<forall>item \<in> set ads. 20 \<le> price_usd item"
    using resolved_items [OF ads_map] ADDONS_Some by blast
  have prs_price: "\<forall>item \<in> set prs. 80 \<le> price_usd item"
    using resolved_items [OF prs_map] PREMIUM_FEATURES_Some by blast
  define U where "U = price_usd pl + sum_list (map price_usd ads) + sum_list (map price_usd prs)"
  define B where "B = mem * U"
  define G where "G = (if mem \<ge> 2 then (B * 10) div 100 else 0)"
  define S where "S = (if prs \<noteq> [] then ((B - G) * 15) div 100 else 0)"
  define D where "D = special_offer_discount (B - G + S)"
  have na: "0 \<le> sum_list (map price_usd ads)"
    using ads_price by (intro sum_list_prices_nonneg) auto
  moreover have "0 \<le> sum_list (map price_usd prs)"
    using prs_price by (intro sum_list_prices_nonneg) auto
  ultimately have U: "60 \<le> U" using pl_price by (simp add: U_def)
  have mu: "mem * 60 \<le> mem * U" using mem U by (intro base_lower) auto
  have mu': "mem * 140 \<le> mem * U" if "prs \<noteq> []"
  proof -
    have "80 \<le> sum_list (map price_usd prs)"
      using prs_price that by (intro sum_list_prices_lower) auto
    with na pl_price have "140 \<le> U" by (simp add: U_def)
    with mem show ?thesis by (intro base_lower) auto
  qed
  have "60 \<le> mem * 60" using mem by simp
  with mu have B: "60 \<le> B" unfolding B_def by linarith
  have pos: "0 < B - G + S - D"
    unfolding D_def by (rule pipeline_positive(4) [OF B]) (auto simp: G_def S_def)
  define r where "r = \<lparr>members = mem, plan = pl, addons = ads, premium_features = prs,
      base_total_usd = B, group_discount_usd = G, premium_surcharge_usd = S,
      special_offer_discount_usd = D, total_usd = B - G + S - D,
      messages =
         (if mem \<ge> 2
          then [''Group discount applied: 10% off for 2+ members on the same plan.'']
          else [])
         @ (if prs \<noteq> []
            then [''Premium surcharge applied: +15% (premium features selected).'']
            else [])
         @ (if D = 20
            then [''Special offer applied: -$20 (total exceeds $200).'']
            else if D = 50
            then [''Special offer applied: -$50 (total exceeds $400).'']
            else [])\<rparr>"
  have npos: "\<not> (B - G + S - D \<le> 0)" using pos by simp
  have "calculate_total mem p a pr = Inr r"
    unfolding calculate_total_def Let_def validate_selection_dedupe valid pl ads prs
    apply (simp only: option.case sum.case simp_thms if_False)
    apply (fold U_def)
    apply (fold B_def)
    apply (fold G_def)
    apply (fold S_def)
    apply (fold D_def)
    apply (simp only: npos if_False r_def)
    apply simp
    done
  moreover have "members r = mem" "plan r = pl" "addons r = ads" "premium_features r = prs"
    "base_total_usd r = B" "group_discount_usd r = G" "premium_surcharge_usd r = S"
    "special_offer_discount_usd r = D" "total_usd r = B - G + S - D"
    by (simp_all add: r_def)
  moreover have "messages r =
         (if mem \<ge> 2
          then [''Group discount applied: 10% off for 2+ members on the same plan.'']
          else [])
         @ (if prs \<noteq> []
            then [''Premium surcharge applied: +15% (premium features selected).'']
            else [])
         @ (if D = 20
            then [''Special offer applied: -$20 (total exceeds $200).'']
            else if D = 50
            then [''Special offer applied: -$50 (total exceeds $400).'']
            else [])"
    by (simp add: r_def)
  ultimately show ?thesis
    using pl ads_map prs_map mu mu' pos
    unfolding D_def S_def G_def B_def U_def
    by (intro exI [of _ r]) simp
qed

lemma premium_selected:
  "map PREMIUM_FEATURES (dedupe_preserve_order pr) = map Some prs \<Longrightarrow> prs \<noteq> [] \<longleftrightarrow> pr \<noteq> []"
  using dedupe_Nil_iff [of pr] by (metis map_is_Nil_conv)


section \<open>Invalid selections\<close>

lemma PLANS_price_upper: "PLANS c = Some item \<Longrightarrow> price_usd item \<le> 160"
  by (auto simp: PLANS_def split: if_splits)

lemma registered_iff:
  "registered PLANS c \<longleftrightarrow> PLANS c \<noteq> None"
  "registered ADDONS c \<longleftrightarrow> ADDONS c \<noteq> None"
  "registered PREMIUM_FEATURES c \<longleftrightarrow> PREMIUM_FEATURES c \<noteq> None"
  by (auto simp: registered_def dest: PLANS_Some ADDONS_Some PREMIUM_FEATURES_Some
      split: option.splits)

lemma rule_violated_iff: "rule_violated mem p a pr \<longleftrightarrow> validate_selection mem p a pr \<noteq> []"
  unfolding rule_violated_def validate_selection_Nil_iff registered_iff by blast

lemma calculate_total_invalid:
  assumes "validate_selection mem p a pr \<noteq> []"
  shows "calculate_total mem p a pr
    = Inl (ValueError (join ''; '' (validate_selection mem p a pr)))"
  unfolding calculate_total_def Let_def validate_selection_dedupe
  using assms by (simp only: simp_thms if_True)

lemma set_validate_selection:
  "set (validate_selection mem p a pr) =
     set (members_messages mem) \<union> set (plan_messages p)
       \<union> (\<Union>c \<in> set a. set (addon_messages c))
       \<union> (\<Union>c \<in> set pr. set (premium_messages c))"
  by (auto simp: validate_selection_eq)


section \<open>Claims\<close>

text \<open>
  Claim C1. For every selection that passes validation, \<open>calculate_total\<close> returns a
  result whose plan and items are the registry entries of the plan code and of the
  deduplicated codes, and whose money fields follow the pipeline with floor division:
  the base total is the member count times the sum of the plan price and of the prices of
  the deduplicated add-ons and premium features; the group discount is
  \<open>(base * 10) div 100\<close> for two members or more and 0 otherwise; the premium surcharge
  is \<open>((base - group discount) * 15) div 100\<close> when a premium feature is selected and 0
  otherwise; the special-offer discount is the step function of the total after the
  surcharge; the final total is that total minus the special-offer discount.
\<close>

theorem calculate_total_pipeline:
  assumes "validate_selection mem p a pr = []"
  shows "\<exists>r. calculate_total mem p a pr = Inr r
     \<and> PLANS p = Some (plan r)
     \<and> map ADDONS (first_occurrences a) = map Some (addons r)
     \<and> map PREMIUM_FEATURES (first_occurrences pr) = map Some (premium_features r)
     \<and> base_total_usd r =
         mem * (price_usd (plan r) + sum_list (map price_usd (addons r))
                + sum_list (map price_usd (premium_features r)))
     \<and> group_discount_usd r = (if mem \<ge> 2 then (base_total_usd r * 10) div 100 else 0)
     \<and> premium_surcharge_usd r =
         (if pr \<noteq> [] then ((base_total_usd r - group_discount_usd r) * 15) div 100 else 0)
     \<and> special_offer_discount_usd r =
         (let t = base_total_usd r - group_discount_usd r + premium_surcharge_usd r
          in if t > 400 then 50 else if t > 200 then 20 else 0)
     \<and> total_usd r =
         base_total_usd r - group_discount_usd r + premium_surcharge_usd r
           - special_offer_discount_usd r"
proof -
  from calculate_total_valid [OF assms] obtain r where r: "calculate_total mem p a pr = Inr r"
    and f: "PLANS p = Some (plan r)"
      "map ADDONS (dedupe_preserve_order a) = map Some (addons r)"
      "map PREMIUM_FEATURES (dedupe_preserve_order pr) = map Some (premium_features r)"
      "base_total_usd r =
         mem * (price_usd (plan r) + sum_list (map price_usd (addons r))
                + sum_list (map price_usd (premium_features r)))"
      "group_discount_usd r = (if mem \<ge> 2 then (base_total_usd r * 10) div 100 else 0)"
      "premium_surcharge_usd r =
         (if premium_features r \<noteq> []
          then ((base_total_usd r - group_discount_usd r) * 15) div 100 else 0)"
      "special_offer_discount_usd r =
         special_offer_discount
           (base_total_usd r - group_discount_usd r + premium_surcharge_usd r)"
      "total_usd r =
         base_total_usd r - group_discount_usd r + premium_surcharge_usd r
           - special_offer_discount_usd r"
    by blast
  have sel: "premium_features r \<noteq> [] \<longleftrightarrow> pr \<noteq> []"
    by (rule premium_selected [OF f(3)])
  show ?thesis
    using r f(1,4,5,8) f(2,3) [unfolded dedupe_first_occurrences] f(6) [unfolded sel]
      f(7) [unfolded special_offer_discount_def]
    by (intro exI [of _ r]) (simp add: Let_def)
qed

text \<open>
  The scenario of the claim: two members, plan \<open>premium\<close>, premium feature
  \<open>exclusive\<close> give base 360, group discount 36, surcharge 48 (the floor of 48.6),
  special offer 20 and total 352.
\<close>

theorem calculate_total_pipeline_witness:
  "validate_selection 2 ''premium'' [] [''exclusive''] = []
   \<and> (\<exists>r. calculate_total 2 ''premium'' [] [''exclusive''] = Inr r
        \<and> base_total_usd r = 360 \<and> group_discount_usd r = 36
        \<and> premium_surcharge_usd r = 48 \<and> special_offer_discount_usd r = 20
        \<and> total_usd r = 352)"
proof -
  have v: "validate_selection 2 ''premium'' [] [''exclusive''] = []"
    by (simp add: validate_selection_Nil_iff PLANS_def PREMIUM_FEATURES_def)
  from calculate_total_pipeline [OF v] obtain r
    where r: "calculate_total 2 ''premium'' [] [''exclusive''] = Inr r"
      and pl: "PLANS ''premium'' = Some (plan r)"
      and ads: "map ADDONS (first_occurrences []) = map Some (addons r)"
      and prs: "map PREMIUM_FEATURES (first_occurrences [''exclusive''])
                  = map Some (premium_features r)"
      and b: "base_total_usd r =
         2 * (price_usd (plan r) + sum_list (map price_usd (addons r))
                + sum_list (map price_usd (premium_features r)))"
      and g: "group_discount_usd r =
         (if (2::int) \<ge> 2 then (base_total_usd r * 10) div 100 else 0)"
      and s: "premium_surcharge_usd r =
         (if [''exclusive''] \<noteq> []
          then ((base_total_usd r - group_discount_usd r) * 15) div 100 else 0)"
      and d: "special_offer_discount_usd r =
         (let t = base_total_usd r - group_discount_usd r + premium_surcharge_usd r
          in if t > 400 then 50 else if t > 200 then 20 else 0)"
      and t: "total_usd r =
         base_total_usd r - group_discount_usd r + premium_surcharge_usd r
           - special_offer_discount_usd r"
    by blast
  have "price_usd (plan r) = 100" using pl [symmetric] by (simp add: PLANS_def)
  moreover have "addons r = []" using ads by simp
  moreover have "map price_usd (premium_features r) = [80]"
    using prs [symmetric] by (auto simp: PREMIUM_FEATURES_def)
  ultimately have b': "base_total_usd r = 360" using b by simp
  have g': "group_discount_usd r = 36" using g b' by simp
  have s': "premium_surcharge_usd r = 48" using s b' g' by simp
  have d': "special_offer_discount_usd r = 20" using d b' g' s' by simp
  have "total_usd r = 352" using t b' g' s' d' by simp
  with v r b' g' s' d' show ?thesis by blast
qed

text \<open>
  Claim C2. The special-offer discount is a step function with strict thresholds: 50 above
  400, 20 above 200 and up to 400, 0 up to 200.
\<close>

theorem special_offer_discount_steps:
  "(t > 400 \<longrightarrow> special_offer_discount t = 50)
   \<and> (200 < t \<and> t \<le> 400 \<longrightarrow> special_offer_discount t = 20)
   \<and> (t \<le> 200 \<longrightarrow> special_offer_discount t = 0)"
  by (simp add: special_offer_discount_def)

text \<open>At the thresholds: 200 gives 0, 201 gives 20, 400 gives 20 and 401 gives 50.\<close>

theorem special_offer_discount_steps_witness:
  "special_offer_discount 200 = 0 \<and> special_offer_discount 201 = 20
   \<and> special_offer_discount 400 = 20 \<and> special_offer_discount 401 = 50"
  using special_offer_discount_steps [of 200] special_offer_discount_steps [of 201]
    special_offer_discount_steps [of 400] special_offer_discount_steps [of 401]
  by simp

text \<open>
  Claim C3. With the seed catalog, every selection that passes validation has a strictly
  positive final total: \<open>calculate_total\<close> returns a result, and never the
  configuration error of the branch \<open>total <= 0\<close>.
\<close>

theorem calculate_total_positive:
  assumes "validate_selection mem p a pr = []"
  shows "(\<exists>r. calculate_total mem p a pr = Inr r \<and> 0 < total_usd r)
     \<and> calculate_total mem p a pr
         \<noteq> Inl (ValueError ''calculated total is not positive; check pricing configuration.'')"
proof -
  from calculate_total_valid [OF assms] obtain r
    where "calculate_total mem p a pr = Inr r" and "0 < total_usd r" by blast
  then show ?thesis by simp
qed

theorem calculate_total_positive_witness:
  "validate_selection 1 ''basic'' [] [] = []
   \<and> (\<exists>r. calculate_total 1 ''basic'' [] [] = Inr r \<and> 0 < total_usd r)
   \<and> calculate_total 1 ''basic'' [] []
       \<noteq> Inl (ValueError ''calculated total is not positive; check pricing configuration.'')"
proof -
  have v: "validate_selection 1 ''basic'' [] [] = []"
    by (simp add: validate_selection_Nil_iff PLANS_def)
  show ?thesis using v calculate_total_positive [OF v] by blast
qed

text \<open>
  Claim C4. For every valid selection the notes of the result are, in this order: the
  group-discount note iff there are two members or more, the premium-surcharge note iff a
  premium feature is selected, and one special-offer note iff the special-offer discount
  is not zero (the 20 note for 20, the 50 note for 50). With the seed catalog the group
  discount is not zero exactly when there are two members or more, and the surcharge is
  not zero exactly when a premium feature is selected, so each note is present iff the
  amount of its rule is not zero.
\<close>

theorem calculate_total_messages:
  assumes "validate_selection mem p a pr = []"
  shows "\<exists>r. calculate_total mem p a pr = Inr r
     \<and> messages r =
         (if mem \<ge> 2
          then [''Group discount applied: 10% off for 2+ members on the same plan.'']
          else [])
         @ (if pr \<noteq> []
            then [''Premium surcharge applied: +15% (premium features selected).'']
            else [])
         @ (if special_offer_discount_usd r = 20
            then [''Special offer applied: -$20 (total exceeds $200).'']
            else if special_offer_discount_usd r = 50
            then [''Special offer applied: -$50 (total exceeds $400).'']
            else [])
     \<and> (special_offer_discount_usd r \<noteq> 0 \<longleftrightarrow>
          special_offer_discount_usd r = 20 \<or> special_offer_discount_usd r = 50)
     \<and> (group_discount_usd r \<noteq> 0 \<longleftrightarrow> mem \<ge> 2)
     \<and> (premium_surcharge_usd r \<noteq> 0 \<longleftrightarrow> pr \<noteq> [])"
proof -
  from calculate_total_valid [OF assms] obtain r where r: "calculate_total mem p a pr = Inr r"
    and prs: "map PREMIUM_FEATURES (dedupe_preserve_order pr) = map Some (premium_features r)"
    and g: "group_discount_usd r = (if mem \<ge> 2 then (base_total_usd r * 10) div 100 else 0)"
    and s: "premium_surcharge_usd r =
         (if premium_features r \<noteq> []
          then ((base_total_usd r - group_discount_usd r) * 15) div 100 else 0)"
    and d: "special_offer_discount_usd r =
         special_offer_discount
           (base_total_usd r - group_discount_usd r + premium_surcharge_usd r)"
    and m: "messages r =
         (if mem \<ge> 2
          then [''Group discount applied: 10% off for 2+ members on the same plan.'']
          else [])
         @ (if premium_features r \<noteq> []
            then [''Premium surcharge applied: +15% (premium features selected).'']
            else [])
         @ (if special_offer_discount_usd r = 20
            then [''Special offer applied: -$20 (total exceeds $200).'']
            else if special_offer_discount_usd r = 50
            then [''Special offer applied: -$50 (total exceeds $400).'']
            else [])"
    and b: "mem * 60 \<le> base_total_usd r"
    and b': "premium_features r \<noteq> [] \<longrightarrow> mem * 140 \<le> base_total_usd r"
    by blast
  have mem: "0 < mem" using assms by (simp add: validate_selection_Nil_iff)
  have sel: "premium_features r \<noteq> [] \<longleftrightarrow> pr \<noteq> []"
    by (rule premium_selected [OF prs])
  have d3: "special_offer_discount_usd r \<noteq> 0 \<longleftrightarrow>
          special_offer_discount_usd r = 20 \<or> special_offer_discount_usd r = 50"
    unfolding d by (simp add: special_offer_discount_def)
  have g0: "group_discount_usd r \<noteq> 0 \<longleftrightarrow> mem \<ge> 2"
  proof (cases "mem \<ge> 2")
    case True
    then have "120 \<le> base_total_usd r" using b by simp
    from effects_nonzero(1) [OF this] show ?thesis using True g by simp
  next
    case False
    then show ?thesis using g by simp
  qed
  have s0: "premium_surcharge_usd r \<noteq> 0 \<longleftrightarrow> pr \<noteq> []"
  proof (cases "pr \<noteq> []")
    case True
    then have ne: "premium_features r \<noteq> []" using sel by simp
    then have "140 \<le> base_total_usd r" using b' mem by simp
    moreover have "group_discount_usd r = 0
        \<or> group_discount_usd r = (base_total_usd r * 10) div 100"
      using g by simp
    ultimately have "((base_total_usd r - group_discount_usd r) * 15) div 100 \<noteq> 0"
      by (rule effects_nonzero(2))
    then show ?thesis using True ne s by simp
  next
    case False
    then show ?thesis using sel s by simp
  qed
  show ?thesis using r m [unfolded sel] d3 g0 s0 by blast
qed

text \<open>Two members, plan \<open>premium\<close>, feature \<open>exclusive\<close>: all three notes, in rule order.\<close>

theorem calculate_total_messages_witness:
  "validate_selection 2 ''premium'' [] [''exclusive''] = []
   \<and> (\<exists>r. calculate_total 2 ''premium'' [] [''exclusive''] = Inr r
        \<and> group_discount_usd r \<noteq> 0 \<and> premium_surcharge_usd r \<noteq> 0
        \<and> special_offer_discount_usd r \<noteq> 0
        \<and> messages r =
          [''Group discount applied: 10% off for 2+ members on the same plan.'',
           ''Premium surcharge applied: +15% (premium features selected).'',
           ''Special offer applied: -$20 (total exceeds $200).''])"
proof -
  have v: "validate_selection 2 ''premium'' [] [''exclusive''] = []"
    by (simp add: validate_selection_Nil_iff PLANS_def PREMIUM_FEATURES_def)
  from calculate_total_messages [OF v] obtain r
    where r: "calculate_total 2 ''premium'' [] [''exclusive''] = Inr r"
      and m: "messages r =
         (if (2::int) \<ge> 2
          then [''Group discount applied: 10% off for 2+ members on the same plan.'']
          else [])
         @ (if [''exclusive''] \<noteq> []
            then [''Premium surcharge applied: +15% (premium features selected).'']
            else [])
         @ (if special_offer_discount_usd r = 20
            then [''Special offer applied: -$20 (total exceeds $200).'']
            else if special_offer_discount_usd r = 50
            then [''Special offer applied: -$50 (total exceeds $400).'']
            else [])"
      and g: "group_discount_usd r \<noteq> 0 \<longleftrightarrow> (2::int) \<ge> 2"
      and s: "premium_surcharge_usd r \<noteq> 0 \<longleftrightarrow> [''exclusive''] \<noteq> []"
    by blast
  have "map_sum id special_offer_discount_usd
          (calculate_total 2 ''premium'' [] [''exclusive'']) = Inr 20"
    by code_simp
  then have sp: "special_offer_discount_usd r = 20" using r by simp
  have "group_discount_usd r \<noteq> 0" using g by simp
  moreover have "premium_surcharge_usd r \<noteq> 0" using s by simp
  moreover have "special_offer_discount_usd r \<noteq> 0" using sp by simp
  moreover have "messages r =
          [''Group discount applied: 10% off for 2+ members on the same plan.'',
           ''Premium surcharge applied: +15% (premium features selected).'',
           ''Special offer applied: -$20 (total exceeds $200).'']"
    using m sp by simp
  ultimately show ?thesis using v r by blast
qed

text \<open>
  Claim C5. Whenever a validation rule is violated, \<open>calculate_total\<close> fails with the
  \<open>ValueError\<close> whose message joins with \<open>"; "\<close> the whole list returned by
  \<open>validate_selection\<close>; that list is not empty and holds exactly the messages of all the
  violated rules (the member count, the plan, every add-on code, every premium code), so
  no violation is dropped after the first.
\<close>

theorem calculate_total_invalid_selection:
  assumes "rule_violated mem p a pr"
  shows "calculate_total mem p a pr
       = Inl (ValueError (join ''; '' (validate_selection mem p a pr)))
     \<and> validate_selection mem p a pr \<noteq> []
     \<and> set (validate_selection mem p a pr) =
         set (members_messages mem) \<union> set (plan_messages p)
           \<union> (\<Union>c \<in> set a. set (addon_messages c))
           \<union> (\<Union>c \<in> set pr. set (premium_messages c))"
proof -
  have ne: "validate_selection mem p a pr \<noteq> []"
    using assms by (simp add: rule_violated_iff)
  show ?thesis
    using calculate_total_invalid [OF ne] ne set_validate_selection [of mem p a pr]
    by simp
qed

text \<open>
  Zero members together with the unknown plan \<open>gold\<close>: the error carries both messages.
\<close>

theorem calculate_total_invalid_selection_witness:
  "rule_violated 0 ''gold'' [] []
   \<and> calculate_total 0 ''gold'' [] []
       = Inl (ValueError (''members must be a positive integer.; unknown plan: ''
                @ [CHR 0x27] @ ''gold'' @ [CHR 0x27] @ ''.''))"
proof -
  have v: "rule_violated 0 ''gold'' [] []"
    by (simp add: rule_violated_def)
  have e: "validate_selection 0 ''gold'' [] [] =
    [''members must be a positive integer.'',
     ''unknown plan: '' @ [CHR 0x27] @ ''gold'' @ [CHR 0x27] @ ''.'']"
    by code_simp
  from calculate_total_invalid_selection [OF v]
  have "calculate_total 0 ''gold'' [] []
       = Inl (ValueError (join ''; '' (validate_selection 0 ''gold'' [] [])))"
    by blast
  then show ?thesis using v unfolding e by simp
qed



text \<open>
  Claim C7. One member, a plan of the registry, no add-on and no premium feature: the
  three adjustments are 0, and the base total and the final total are the plan price.
\<close>

theorem single_member_plan_only:
  assumes "PLANS p = Some pl"
  shows "\<exists>r. calculate_total 1 p [] [] = Inr r
     \<and> base_total_usd r = price_usd pl
     \<and> group_discount_usd r = 0
     \<and> premium_surcharge_usd r = 0
     \<and> special_offer_discount_usd r = 0
     \<and> total_usd r = price_usd pl"
proof -
  have v: "validate_selection 1 p [] [] = []"
    using assms by (simp add: validate_selection_Nil_iff)
  from calculate_total_valid [OF v] obtain r where r: "calculate_total 1 p [] [] = Inr r"
    and pl: "PLANS p = Some (plan r)"
    and ads: "map ADDONS (dedupe_preserve_order []) = map Some (addons r)"
    and prs: "map PREMIUM_FEATURES (dedupe_preserve_order []) = map Some (premium_features r)"
    and b: "base_total_usd r =
         1 * (price_usd (plan r) + sum_list (map price_usd (addons r))
                + sum_list (map price_usd (premium_features r)))"
    and g: "group_discount_usd r = (if (1::int) \<ge> 2 then (base_total_usd r * 10) div 100 else 0)"
    and s: "premium_surcharge_usd r =
         (if premium_features r \<noteq> []
          then ((base_total_usd r - group_discount_usd r) * 15) div 100 else 0)"
    and d: "special_offer_discount_usd r =
         special_offer_discount
           (base_total_usd r - group_discount_usd r + premium_surcharge_usd r)"
    and t: "total_usd r =
         base_total_usd r - group_discount_usd r + premium_surcharge_usd r
           - special_offer_discount_usd r"
    by blast
  have plr: "plan r = pl" using pl assms by simp
  have a0: "addons r = []" using ads by simp
  have p0: "premium_features r = []" using prs by simp
  have b': "base_total_usd r = price_usd pl" using b plr a0 p0 by simp
  have g': "group_discount_usd r = 0" using g by simp
  have s': "premium_surcharge_usd r = 0" using s p0 by simp
  have "price_usd pl \<le> 160" using PLANS_price_upper [OF assms] .
  then have d': "special_offer_discount_usd r = 0"
    using d b' g' s' by (simp add: special_offer_discount_def)
  have "total_usd r = price_usd pl" using t b' g' s' d' by simp
  with r b' g' s' d' show ?thesis by blast
qed

text \<open>Plan \<open>basic\<close>: base 60 and total 60.\<close>

theorem single_member_plan_only_witness:
  "PLANS ''basic'' = Some \<lparr>code = ''basic'', name = ''Basic'', price_usd = 60,
         available = True, is_premium = False\<rparr>
   \<and> (\<exists>r. calculate_total 1 ''basic'' [] [] = Inr r
     \<and> base_total_usd r = 60
     \<and> group_discount_usd r = 0
     \<and> premium_surcharge_usd r = 0
     \<and> special_offer_discount_usd r = 0
     \<and> total_usd r = 60)"
proof -
  have pl: "PLANS ''basic'' = Some \<lparr>code = ''basic'', name = ''Basic'', price_usd = 60,
         available = True, is_premium = False\<rparr>"
    by (simp add: PLANS_def)
  show ?thesis using pl single_member_plan_only [OF pl] by simp
qed

text \<open>
  Claim C9. Every result that \<open>calculate_total\<close> returns is coherent: the final total is
  base total minus group discount plus premium surcharge minus special-offer discount,
  the five money fields are not negative, and the final total is at least 1.
\<close>

theorem result_coherent:
  assumes "calculate_total mem p a pr = Inr r"
  shows "total_usd r =
       base_total_usd r - group_discount_usd r + premium_surcharge_usd r
         - special_offer_discount_usd r
     \<and> 0 \<le> base_total_usd r \<and> 0 \<le> group_discount_usd r \<and> 0 \<le> premium_surcharge_usd r
     \<and> 0 \<le> special_offer_discount_usd r \<and> 1 \<le> total_usd r"
proof -
  have v: "validate_selection mem p a pr = []"
  proof (rule ccontr)
    assume "validate_selection mem p a pr \<noteq> []"
    from calculate_total_invalid [OF this] assms show False by simp
  qed
  from calculate_total_valid [OF v] obtain r' where r': "calculate_total mem p a pr = Inr r'"
    and g': "group_discount_usd r' = (if mem \<ge> 2 then (base_total_usd r' * 10) div 100 else 0)"
    and s': "premium_surcharge_usd r' =
         (if premium_features r' \<noteq> []
          then ((base_total_usd r' - group_discount_usd r') * 15) div 100 else 0)"
    and d': "special_offer_discount_usd r' =
         special_offer_discount
           (base_total_usd r' - group_discount_usd r' + premium_surcharge_usd r')"
    and t': "total_usd r' =
         base_total_usd r' - group_discount_usd r' + premium_surcharge_usd r'
           - special_offer_discount_usd r'"
    and b': "mem * 60 \<le> base_total_usd r'"
    and pos': "0 < total_usd r'"
    by blast
  have rr: "r' = r" using r' assms by simp
  note g = g' [unfolded rr] and s = s' [unfolded rr] and d = d' [unfolded rr]
    and t = t' [unfolded rr] and b = b' [unfolded rr] and pos = pos' [unfolded rr]
  have "0 < mem" using v by (simp add: validate_selection_Nil_iff)
  then have B: "60 \<le> base_total_usd r" using b by simp
  have G: "group_discount_usd r = 0 \<or> group_discount_usd r = (base_total_usd r * 10) div 100"
    using g by simp
  have S: "premium_surcharge_usd r = 0
     \<or> premium_surcharge_usd r = ((base_total_usd r - group_discount_usd r) * 15) div 100"
    using s by simp
  have "0 \<le> group_discount_usd r" by (rule pipeline_positive(1) [OF B G S])
  moreover have "0 \<le> premium_surcharge_usd r" by (rule pipeline_positive(2) [OF B G S])
  moreover have "0 \<le> special_offer_discount_usd r"
    unfolding d by (rule pipeline_positive(3) [OF B G S])
  ultimately show ?thesis using t B pos by simp
qed

text \<open>Three members, plan \<open>basic\<close>, add-on \<open>pt\<close>: a result, of total 304.\<close>

theorem result_coherent_witness:
  "\<exists>r. calculate_total 3 ''basic'' [''pt''] [] = Inr r
     \<and> total_usd r = 304
     \<and> total_usd r =
         base_total_usd r - group_discount_usd r + premium_surcharge_usd r
           - special_offer_discount_usd r
     \<and> 0 \<le> base_total_usd r \<and> 0 \<le> group_discount_usd r \<and> 0 \<le> premium_surcharge_usd r
     \<and> 0 \<le> special_offer_discount_usd r \<and> 1 \<le> total_usd r"
proof -
  define r where "r =
   \<lparr>members = 3,
    plan = \<lparr>code = ''basic'', name = ''Basic'', price_usd = 60,
         available = True, is_premium = False\<rparr>,
    addons = [\<lparr>code = ''pt'', name = ''Personal training sessions'', price_usd = 60,
         available = True, is_premium = False\<rparr>],
    premium_features = [],
    base_total_usd = 360, group_discount_usd = 36, premium_surcharge_usd = 0,
    special_offer_discount_usd = 20, total_usd = 304,
    messages = [''Group discount applied: 10% off for 2+ members on the same plan.'',
       ''Special offer applied: -$20 (total exceeds $200).'']\<rparr>"
  have e: "calculate_total 3 ''basic'' [''pt''] [] = Inr r"
    unfolding r_def by code_simp
  have "total_usd r = 304" by (simp add: r_def)
  with e result_coherent [OF e] show ?thesis by blast
qed

text \<open>
  Claim C10. The violation messages come in a fixed order: the member-count message, then
  the plan message, then the messages of the add-on codes in the order of their first
  occurrences, then those of the premium codes in the order of their first occurrences,
  at most one message for the member count, for the plan and for each code; the error of
  \<open>calculate_total\<close> joins them in that order.
\<close>

theorem validation_message_order:
  "validate_selection mem p a pr =
     members_messages mem @ plan_messages p
       @ concat (map addon_messages (first_occurrences a))
       @ concat (map premium_messages (first_occurrences pr))
   \<and> length (members_messages mem) \<le> 1 \<and> length (plan_messages p) \<le> 1
   \<and> (\<forall>c \<in> set a. length (addon_messages c) \<le> 1)
   \<and> (\<forall>c \<in> set pr. length (premium_messages c) \<le> 1)
   \<and> (validate_selection mem p a pr \<noteq> [] \<longrightarrow>
        calculate_total mem p a pr =
          Inl (ValueError (join ''; ''
            (members_messages mem @ plan_messages p
               @ concat (map addon_messages (first_occurrences a))
               @ concat (map premium_messages (first_occurrences pr))))))"
proof -
  have eq: "validate_selection mem p a pr =
     members_messages mem @ plan_messages p
       @ concat (map addon_messages (first_occurrences a))
       @ concat (map premium_messages (first_occurrences pr))"
    using validate_selection_eq [of mem p a pr] by (simp only: dedupe_first_occurrences)
  have len: "length (members_messages mem) \<le> 1" "length (plan_messages p) \<le> 1"
    "\<And>c. length (addon_messages c) \<le> 1" "\<And>c. length (premium_messages c) \<le> 1"
    by (simp_all add: members_messages_def plan_messages_def addon_messages_def
        premium_messages_def split: option.splits)
  have "calculate_total mem p a pr =
          Inl (ValueError (join ''; ''
            (members_messages mem @ plan_messages p
               @ concat (map addon_messages (first_occurrences a))
               @ concat (map premium_messages (first_occurrences pr)))))"
    if "validate_selection mem p a pr \<noteq> []"
    using calculate_total_invalid [OF that] by (simp only: eq)
  with eq len show ?thesis by blast
qed

text \<open>
  Zero members, plan \<open>gold\<close>, add-ons \<open>x, pt, x\<close> and premium codes \<open>y, y\<close>: four
  messages, in rule order, one for \<open>x\<close> and one for \<open>y\<close>.
\<close>

theorem validation_message_order_witness:
  "calculate_total 0 ''gold'' [''x'', ''pt'', ''x''] [''y'', ''y'']
   = Inl (ValueError (''members must be a positive integer.; unknown plan: '' @ [CHR 0x27]
       @ ''gold'' @ [CHR 0x27] @ ''.; unknown add-on: '' @ [CHR 0x27] @ ''x'' @ [CHR 0x27]
       @ ''.; unknown premium feature: '' @ [CHR 0x27] @ ''y'' @ [CHR 0x27] @ ''.''))"
proof -
  let ?a = "[''x'', ''pt'', ''x'']" and ?pr = "[''y'', ''y'']"
  have m: "members_messages 0 = [''members must be a positive integer.'']"
    by (simp add: members_messages_def)
  have pl: "plan_messages ''gold'' = [''unknown plan: '' @ [CHR 0x27] @ ''gold'' @ [CHR 0x27] @ ''.'']"
    by code_simp
  have ad: "concat (map addon_messages (first_occurrences ?a))
      = [''unknown add-on: '' @ [CHR 0x27] @ ''x'' @ [CHR 0x27] @ ''.'']"
    by code_simp
  have pm: "concat (map premium_messages (first_occurrences ?pr))
      = [''unknown premium feature: '' @ [CHR 0x27] @ ''y'' @ [CHR 0x27] @ ''.'']"
    by code_simp
  from validation_message_order [of 0 "''gold''" ?a ?pr]
  have eq: "validate_selection 0 ''gold'' ?a ?pr =
     members_messages 0 @ plan_messages ''gold''
       @ concat (map addon_messages (first_occurrences ?a))
       @ concat (map premium_messages (first_occurrences ?pr))"
    and imp: "validate_selection 0 ''gold'' ?a ?pr \<noteq> [] \<longrightarrow>
        calculate_total 0 ''gold'' ?a ?pr =
          Inl (ValueError (join ''; ''
            (members_messages 0 @ plan_messages ''gold''
               @ concat (map addon_messages (first_occurrences ?a))
               @ concat (map premium_messages (first_occurrences ?pr)))))"
    by blast+
  have "validate_selection 0 ''gold'' ?a ?pr \<noteq> []" unfolding eq m by simp
  with imp show ?thesis unfolding m pl ad pm by simp
qed

end
